theory Spec2Isabelle
  imports Complex_Main "HOL-Library.Word"
begin

section \<open>Aural Landscapes: envelopes, oscillators and the audio player\<close>

text \<open>
  A shallow embedding of \<^verbatim>\<open>breakpoints.c\<close>, \<^verbatim>\<open>oscillator.c\<close> and
  \<^verbatim>\<open>audio_player.c\<close>.

  Conventions of the embedding.
  \<^item> In the oscillator and in the mixer a C \<^verbatim>\<open>float\<close> is a value of the type \<open>float\<close>
    below: a finite single precision number, an infinity or a NaN. Every operation
    rounds its exact result to the nearest single precision number, ties to even, and
    overflows to an infinity. The two zeros are not distinguished: the sign of a zero
    shows only in the sign of the infinity obtained by dividing by it, and the one
    quotient of the source whose divisor can be a negative zero (by \<^verbatim>\<open>slength\<close>) is not
    followed further once it is not finite.
  \<^item> The envelope functions of \<^verbatim>\<open>breakpoints.c\<close> are modelled on the exact values of the
    floats they are given: their arithmetic is the one of \<^typ>\<open>real\<close>, and their integers
    are of type \<^typ>\<open>int\<close>.
  \<^item> In the oscillator, its list and the player a C \<^verbatim>\<open>int\<close> is a \<^typ>\<open>32 word\<close>, read
    with \<^term>\<open>sint\<close>; \<open>+\<close> and \<open>-\<close> wrap around (what the compiled code does; signed
    overflow is undefined in C). The conversion of a \<^verbatim>\<open>float\<close> that is not finite or
    lies outside the range of \<^verbatim>\<open>int\<close> is undefined in C as well; the model takes the
    value the x86-64 conversion instruction delivers, \<open>INT_MIN\<close>.
  \<^item> An array is a list. A read outside the list is undefined behaviour in C; the model
    makes it the value \<open>Inl OutOfBounds\<close>. Where an envelope quotient has a zero divisor,
    or the envelope is asked for a time that is not finite, the model gives
    \<open>Inl NotFinite\<close>. Both propagate through the arithmetic that consumes them, and only
    through it: the assignments the source makes to the oscillator's fields do not
    depend on such a value and are carried out as written.
  \<^item> Text printed with \<^verbatim>\<open>printf\<close> by the envelope functions is returned as a list of
    printed lines, next to the function's value.
\<close>

subsection \<open>Values that may fail to be a number\<close>

datatype fault = OutOfBounds | NotFinite

type_synonym sample = "fault + real"

fun fadd :: "sample \<Rightarrow> sample \<Rightarrow> sample" where
  "fadd (Inr a) (Inr b) = Inr (a + b)"
| "fadd (Inl e) _ = Inl e"
| "fadd (Inr a) (Inl e) = Inl e"

fun fsub :: "sample \<Rightarrow> sample \<Rightarrow> sample" where
  "fsub (Inr a) (Inr b) = Inr (a - b)"
| "fsub (Inl e) _ = Inl e"
| "fsub (Inr a) (Inl e) = Inl e"

fun fmul :: "sample \<Rightarrow> sample \<Rightarrow> sample" where
  "fmul (Inr a) (Inr b) = Inr (a * b)"
| "fmul (Inl e) _ = Inl e"
| "fmul (Inr a) (Inl e) = Inl e"

fun fdiv :: "sample \<Rightarrow> sample \<Rightarrow> sample" where
  "fdiv (Inr a) (Inr b) = (if b = 0 then Inl NotFinite else Inr (a / b))"
| "fdiv (Inl e) _ = Inl e"
| "fdiv (Inr a) (Inl e) = Inl e"

text \<open>The conversion of a \<^verbatim>\<open>float\<close> to an \<^verbatim>\<open>int\<close> discards the fractional part
  (rounds towards zero).\<close>

definition c_trunc :: "real \<Rightarrow> int" where
  "c_trunc x = (if 0 \<le> x then \<lfloor>x\<rfloor> else \<lceil>x\<rceil>)"

subsection \<open>Single precision arithmetic\<close>

text \<open>Rounding to the nearest integer, ties to the even one.\<close>

definition round_half_even :: "real \<Rightarrow> int" where
  "round_half_even y =
     (let f = \<lfloor>y\<rfloor> in
      if y - real_of_int f < 1 / 2 then f
      else if y - real_of_int f > 1 / 2 then f + 1
      else if even f then f else f + 1)"

text \<open>Rounding a real to the binary format with \<open>p\<close> significant bits and least normal
  exponent \<open>emin\<close>, the exponent range unbounded above: the number is rounded to a multiple
  of the unit in its last place.\<close>

definition round_to :: "nat \<Rightarrow> int \<Rightarrow> real \<Rightarrow> real" where
  "round_to p emin x =
     (if x = 0 then 0
      else
        let u = max \<lfloor>log 2 \<bar>x\<bar>\<rfloor> emin - (int p - 1)
        in real_of_int (round_half_even (x / 2 powi u)) * 2 powi u)"

definition f32r :: "real \<Rightarrow> real" where
  "f32r = round_to 24 (- 126)"

definition f64r :: "real \<Rightarrow> real" where
  "f64r = round_to 53 (- 1022)"

text \<open>The reals that are finite single precision numbers.\<close>

definition representable :: "real \<Rightarrow> bool" where
  "representable x \<longleftrightarrow> f32r x = x \<and> \<bar>x\<bar> < 2 ^ 128"

datatype float = Fin real | PInf | NInf | NaN

text \<open>The \<^verbatim>\<open>float\<close> that an operation delivers when its exact result is \<open>x\<close>.\<close>

definition to_float :: "real \<Rightarrow> float" where
  "to_float x =
     (let q = f32r x in
      if 2 ^ 128 \<le> q then PInf else if q \<le> - (2 ^ 128) then NInf else Fin q)"

fun f_neg :: "float \<Rightarrow> float" where
  "f_neg (Fin a) = Fin (- a)"
| "f_neg PInf = NInf"
| "f_neg NInf = PInf"
| "f_neg NaN = NaN"

fun f_add :: "float \<Rightarrow> float \<Rightarrow> float" where
  "f_add (Fin a) (Fin b) = to_float (a + b)"
| "f_add NaN y = NaN"
| "f_add x NaN = NaN"
| "f_add PInf NInf = NaN"
| "f_add NInf PInf = NaN"
| "f_add PInf y = PInf"
| "f_add x PInf = PInf"
| "f_add NInf y = NInf"
| "f_add x NInf = NInf"

fun f_mul :: "float \<Rightarrow> float \<Rightarrow> float" where
  "f_mul (Fin a) (Fin b) = to_float (a * b)"
| "f_mul NaN y = NaN"
| "f_mul x NaN = NaN"
| "f_mul (Fin a) PInf = (if a = 0 then NaN else if 0 < a then PInf else NInf)"
| "f_mul (Fin a) NInf = (if a = 0 then NaN else if 0 < a then NInf else PInf)"
| "f_mul PInf (Fin b) = (if b = 0 then NaN else if 0 < b then PInf else NInf)"
| "f_mul NInf (Fin b) = (if b = 0 then NaN else if 0 < b then NInf else PInf)"
| "f_mul PInf PInf = PInf"
| "f_mul PInf NInf = NInf"
| "f_mul NInf PInf = NInf"
| "f_mul NInf NInf = PInf"

text \<open>A zero divisor is taken as the positive zero.\<close>

fun f_div :: "float \<Rightarrow> float \<Rightarrow> float" where
  "f_div (Fin a) (Fin b) =
     (if b = 0 then (if a = 0 then NaN else if 0 < a then PInf else NInf)
      else to_float (a / b))"
| "f_div NaN y = NaN"
| "f_div x NaN = NaN"
| "f_div (Fin a) PInf = Fin 0"
| "f_div (Fin a) NInf = Fin 0"
| "f_div PInf (Fin b) = (if 0 \<le> b then PInf else NInf)"
| "f_div NInf (Fin b) = (if 0 \<le> b then NInf else PInf)"
| "f_div PInf PInf = NaN"
| "f_div PInf NInf = NaN"
| "f_div NInf PInf = NaN"
| "f_div NInf NInf = NaN"

text \<open>The comparison \<^verbatim>\<open>x > y\<close> of two floats; it is false when one of them is a NaN.\<close>

fun f_gt :: "float \<Rightarrow> float \<Rightarrow> bool" where
  "f_gt (Fin a) (Fin b) = (b < a)"
| "f_gt NaN y = False"
| "f_gt x NaN = False"
| "f_gt PInf PInf = False"
| "f_gt PInf y = True"
| "f_gt x PInf = False"
| "f_gt NInf y = False"
| "f_gt (Fin a) NInf = True"

type_synonym int32 = "32 word"

text \<open>The conversion \<^verbatim>\<open>(float) i\<close> of an \<^verbatim>\<open>int\<close>, and the conversion of a \<^verbatim>\<open>float\<close> that is
  assigned to an \<^verbatim>\<open>int\<close>.\<close>

definition int_to_float :: "int32 \<Rightarrow> float" where
  "int_to_float i = Fin (f32r (real_of_int (sint i)))"

fun float_to_int :: "float \<Rightarrow> int32" where
  "float_to_int (Fin x) =
     (if - 2147483648 \<le> c_trunc x \<and> c_trunc x \<le> 2147483647 then word_of_int (c_trunc x)
      else word_of_int (- 2147483648))"
| "float_to_int PInf = word_of_int (- 2147483648)"
| "float_to_int NInf = word_of_int (- 2147483648)"
| "float_to_int NaN = word_of_int (- 2147483648)"

text \<open>The quotient \<^verbatim>\<open>1.0 / i\<close>, computed in double precision and then stored in a
  \<^verbatim>\<open>float\<close>.\<close>

definition one_over :: "int32 \<Rightarrow> float" where
  "one_over i = (if sint i = 0 then PInf else to_float (f64r (1 / real_of_int (sint i))))"

text \<open>A \<^verbatim>\<open>float\<close> that may come from a read outside an array, or from the envelope.\<close>

type_synonym fsample = "fault + float"

fun s_add :: "fsample \<Rightarrow> fsample \<Rightarrow> fsample" where
  "s_add (Inr a) (Inr b) = Inr (f_add a b)"
| "s_add (Inl e) _ = Inl e"
| "s_add (Inr a) (Inl e) = Inl e"

fun s_mul :: "fsample \<Rightarrow> fsample \<Rightarrow> fsample" where
  "s_mul (Inr a) (Inr b) = Inr (f_mul a b)"
| "s_mul (Inl e) _ = Inl e"
| "s_mul (Inr a) (Inl e) = Inl e"


subsection \<open>Breakpoints (\<^verbatim>\<open>breakpoints.h\<close>, \<^verbatim>\<open>breakpoints.c\<close>)\<close>

record breakpoint =
  time :: real
  val :: real

text \<open>\<open>bp_list\<close> is the array behind the pointer \<^verbatim>\<open>list\<close>, \<open>len\<close> the field that
  records its length.\<close>

record breakpoints =
  bp_list :: "breakpoint list"
  len :: int
  maxtime :: real

text \<open>\<^verbatim>\<open>bp->list[i].time\<close> and \<^verbatim>\<open>bp->list[i].val\<close>.\<close>

definition list_time :: "breakpoints \<Rightarrow> int \<Rightarrow> sample" where
  "list_time bp i =
     (if 0 \<le> i \<and> i < int (length (bp_list bp)) then Inr (time (bp_list bp ! nat i))
      else Inl OutOfBounds)"

definition list_val :: "breakpoints \<Rightarrow> int \<Rightarrow> sample" where
  "list_val bp i =
     (if 0 \<le> i \<and> i < int (length (bp_list bp)) then Inr (val (bp_list bp ! nat i))
      else Inl OutOfBounds)"

text \<open>The scanning loop of \<^verbatim>\<open>get_timeval\<close>:
  \<^verbatim>\<open>for(i = 0; i < bp->len-1; i++) if(bp->list[i+1].time > time) break;\<close>
  It returns the value of \<open>i\<close> when the loop is left.\<close>

function scan_loop :: "breakpoints \<Rightarrow> real \<Rightarrow> int \<Rightarrow> fault + int" where
  "scan_loop bp t i =
     (if i < len bp - 1 then
        (case list_time bp (i + 1) of
           Inl e \<Rightarrow> Inl e
         | Inr nt \<Rightarrow> if nt > t then Inr i else scan_loop bp t (i + 1))
      else Inr i)"
  by pat_completeness auto
termination
  by (relation "measure (\<lambda>(bp, t, i). nat (len bp - 1 - i))") auto

declare scan_loop.simps [simp del]

definition msg_negative :: string where
  "msg_negative = ''Can't read a negative time value from a breakpoint list''"

definition msg_empty :: string where
  "msg_empty = ''Reading value from empty breakpoint list''"

definition get_timeval :: "breakpoints \<Rightarrow> real \<Rightarrow> string list \<times> sample" where
  "get_timeval bp t =
     (if t < 0 then ([msg_negative], Inr 0)
      else if len bp = 0 then ([msg_empty], Inr 0)
      else
        (case scan_loop bp t 0 of
           Inl e \<Rightarrow> ([], Inl e)
         | Inr i \<Rightarrow>
             if i = len bp then ([], list_val bp i)
             else
               let dt = fsub (list_time bp (i + 1)) (list_time bp i);
                   da = fsub (list_val bp (i + 1)) (list_val bp i);
                   frac = fdiv (fsub (Inr t) (list_time bp i)) dt
               in ([], fadd (list_val bp i) (fmul da frac))))"

definition get_percentval :: "breakpoints \<Rightarrow> real \<Rightarrow> string list \<times> sample" where
  "get_percentval bp percentage = get_timeval bp (maxtime bp * percentage)"

text \<open>\<^verbatim>\<open>load_bp_file\<close>. The parameters stand for what the C library decides:
  \<^item> \<open>alloc n\<close>: whether \<^verbatim>\<open>malloc\<close>/\<^verbatim>\<open>realloc\<close> of \<open>n\<close> bytes succeeds
    (\<^verbatim>\<open>sizeof(Breakpoint)\<close> is 8, two floats);
  \<^item> \<open>sscanf_pair line\<close>: the pair stored by \<^verbatim>\<open>sscanf(line, "%f, %f\n", &time, &val)\<close>
    when it returns 2, \<open>None\<close> when it returns anything else;
  \<^item> \<open>time0\<close>: the content of the uninitialised local \<^verbatim>\<open>time\<close>;
  \<^item> \<open>lines\<close>: the successive results of \<^verbatim>\<open>fgets(line, 255, file)\<close> on the opened file.
  A \<^verbatim>\<open>NULL\<close> result is \<open>Inl\<close> of the reason that was printed.\<close>

datatype load_error = OutOfMemory | ErrorReading | FirstTimeNotZero | TimesMustIncrease | WeirdMemory

text \<open>The \<^verbatim>\<open>while(fgets(...))\<close> loop. \<open>cap\<close> is the local \<^verbatim>\<open>len\<close> (the allocated
  number of entries), \<open>acc\<close> the entries stored so far (\<^verbatim>\<open>count\<close> is its length), \<open>tm\<close>
  the local \<^verbatim>\<open>time\<close>.\<close>

fun load_loop ::
  "(nat \<Rightarrow> bool) \<Rightarrow> (string \<Rightarrow> (real \<times> real) option) \<Rightarrow> string list \<Rightarrow> nat \<Rightarrow>
   breakpoint list \<Rightarrow> real \<Rightarrow> load_error + (breakpoint list \<times> nat \<times> real)" where
  "load_loop alloc sscanf_pair [] cap acc tm = Inr (acc, cap, tm)"
| "load_loop alloc sscanf_pair (line # rest) cap acc tm =
     (if length acc = cap \<and> \<not> alloc (8 * (cap + 5)) then Inl OutOfMemory
      else
        let cap' = (if length acc = cap then cap + 5 else cap) in
        (case sscanf_pair line of
           None \<Rightarrow> Inl ErrorReading
         | Some (t, v) \<Rightarrow>
             if length acc = 0 \<and> t \<noteq> 0 then Inl FirstTimeNotZero
             else if length acc > 0 \<and> t < time (last acc) then Inl TimesMustIncrease
             else load_loop alloc sscanf_pair rest cap'
                    (acc @ [\<lparr>time = t, val = v\<rparr>]) t))"

definition load_bp_file ::
  "(nat \<Rightarrow> bool) \<Rightarrow> (string \<Rightarrow> (real \<times> real) option) \<Rightarrow> real \<Rightarrow> string list \<Rightarrow>
   load_error + breakpoints" where
  "load_bp_file alloc sscanf_pair time0 lines =
     (if \<not> alloc (8 * 5) then Inl OutOfMemory
      else
        (case load_loop alloc sscanf_pair lines 5 [] time0 of
           Inl e \<Rightarrow> Inl e
         | Inr (acc, cap, tm) \<Rightarrow>
             if length acc \<noteq> cap \<and> \<not> alloc (8 * length acc + 1) then Inl WeirdMemory
             else Inr \<lparr>bp_list = acc, len = int (length acc), maxtime = tm\<rparr>))"

subsection \<open>Oscillator (\<^verbatim>\<open>oscillator.h\<close>, \<^verbatim>\<open>oscillator.c\<close>)\<close>

text \<open>The struct, field by field; \<open>index\<close> and \<open>inc\<close> are declared \<^verbatim>\<open>int\<close> in the header.
  The field \<^verbatim>\<open>id\<close> is \<open>osc_id\<close> here. The lookup table and the envelope are shared and never
  written, so the record holds their values.\<close>

record oscillator =
  osc_id :: int32
  tab :: "float list"
  tablen :: int32
  vol_bp :: breakpoints
  freq :: float
  amplitude :: float
  slength :: float
  samplerate :: int32
  curr_sample :: int32
  curr_t :: float
  index :: int32
  inc :: int32
  tinc :: float

definition new_osc ::
  "int32 \<Rightarrow> float list \<Rightarrow> int32 \<Rightarrow> breakpoints \<Rightarrow> int32 \<Rightarrow> float \<Rightarrow> float \<Rightarrow> float \<Rightarrow> float \<Rightarrow>
   oscillator" where
  "new_osc ident table tlen bp srate fr ampl length_s waittime =
     \<lparr>osc_id = ident, tab = table, tablen = tlen, vol_bp = bp, freq = fr, amplitude = ampl,
      slength = f_mul length_s (int_to_float srate),
      samplerate = srate,
      curr_sample = float_to_int (f_mul (f_neg waittime) (int_to_float srate)),
      curr_t = Fin 0,
      index = 0,
      inc = float_to_int (f_div (f_mul fr (int_to_float tlen)) (int_to_float srate)),
      tinc = one_over srate\<rparr>"

text \<open>\<^verbatim>\<open>osc->tab[i]\<close>.\<close>

definition tab_read :: "oscillator \<Rightarrow> int32 \<Rightarrow> fsample" where
  "tab_read osc i =
     (if 0 \<le> sint i \<and> sint i < int (length (tab osc)) then Inr (tab osc ! nat (sint i))
      else Inl OutOfBounds)"

text \<open>\<^verbatim>\<open>oscil_tick\<close> returns the sample and leaves the oscillator advanced. The statements
  are taken in the order of the source: the counter is incremented, the table is read,
  the increment is recomputed in single precision and stored in the \<^verbatim>\<open>int\<close> field, the
  index is advanced and wrapped once, the time is advanced, and the envelope is applied.
  In the test of the first line the counter is compared with 0 as an \<^verbatim>\<open>int\<close> and with
  \<^verbatim>\<open>slength\<close> as a \<^verbatim>\<open>float\<close>. What the envelope functions print is not kept here.\<close>

definition oscil_tick :: "oscillator \<Rightarrow> fsample \<times> oscillator" where
  "oscil_tick osc =
     (if sint (curr_sample osc) < 0 \<or> f_gt (int_to_float (curr_sample osc)) (slength osc)
      then (Inr (Fin 0), osc\<lparr>curr_sample := curr_sample osc + 1\<rparr>)
      else
        let osc1 = osc\<lparr>curr_sample := curr_sample osc + 1\<rparr>;
            v = s_mul (Inr (amplitude osc1)) (tab_read osc1 (index osc1));
            osc2 = osc1\<lparr>inc := float_to_int
                     (f_div (f_mul (freq osc1) (int_to_float (tablen osc1)))
                            (int_to_float (samplerate osc1)))\<rparr>;
            osc3 = osc2\<lparr>index := index osc2 + inc osc2\<rparr>;
            osc4 = (if sint (index osc3) > sint (tablen osc3)
                    then osc3\<lparr>index := index osc3 - tablen osc3\<rparr> else osc3);
            osc5 = osc4\<lparr>curr_t := f_add (curr_t osc4) (tinc osc4)\<rparr>;
            perc = f_div (int_to_float (curr_sample osc5)) (slength osc5);
            amp = (case perc of
                     Fin p \<Rightarrow>
                       (case snd (get_percentval (vol_bp osc5) p) of
                          Inl e \<Rightarrow> Inl e
                        | Inr a \<Rightarrow> Inr (Fin a))
                   | _ \<Rightarrow> Inl NotFinite)
        in (s_mul v amp, osc5))"

definition oscil_expired :: "oscillator \<Rightarrow> int32" where
  "oscil_expired osc =
     (if f_gt (int_to_float (curr_sample osc)) (slength osc) then 1 else 0)"

text \<open>The oscillator after \<open>n\<close> calls of \<^verbatim>\<open>oscil_tick\<close>, and the sample returned by the
  call number \<open>n + 1\<close>.\<close>

fun ticked :: "nat \<Rightarrow> oscillator \<Rightarrow> oscillator" where
  "ticked 0 osc = osc"
| "ticked (Suc n) osc = ticked n (snd (oscil_tick osc))"

definition nth_tick :: "nat \<Rightarrow> oscillator \<Rightarrow> fsample" where
  "nth_tick n osc = fst (oscil_tick (ticked n osc))"

subsection \<open>The oscillator list (\<^verbatim>\<open>OscilNode\<close>)\<close>

text \<open>The doubly linked list is the list of its oscillators, head first.
  \<^verbatim>\<open>oscil_list_add\<close> walks to the last node and links the new one after it;
  \<^verbatim>\<open>oscil_list_remove\<close> unlinks and frees the first node whose oscillator has the id
  (the head is tested first, then the nodes in order) and changes nothing when there is
  none.\<close>

definition oscil_list_add :: "oscillator list \<Rightarrow> oscillator \<Rightarrow> oscillator list" where
  "oscil_list_add head osc = head @ [osc]"

fun oscil_list_remove :: "oscillator list \<Rightarrow> int32 \<Rightarrow> oscillator list" where
  "oscil_list_remove [] ident = []"
| "oscil_list_remove (osc # rest) ident =
     (if osc_id osc = ident then rest else osc # oscil_list_remove rest ident)"

subsection \<open>Audio player (\<^verbatim>\<open>audio_player.h\<close>, \<^verbatim>\<open>audio_player.c\<close>)\<close>

text \<open>The part of \<^verbatim>\<open>AudioPlayer\<close> that the functions below use. \<open>outfile\<close> is the
  sequence of samples written to the output file so far; the sample rate field is
  \<open>player_samplerate\<close>.\<close>

record audio_player =
  osc_list :: "oscillator list"
  write_output :: bool
  outfile :: "fsample list"
  player_samplerate :: int32

text \<open>What a function does with \<^verbatim>\<open>osc_list_lock\<close> and with \<^verbatim>\<open>osc_list\<close>, in the order of
  its statements: a call of \<^verbatim>\<open>pthread_mutex_lock\<close>, a call of \<^verbatim>\<open>pthread_mutex_unlock\<close>,
  or a block of statements that reads or changes the list.\<close>

datatype event = MutexLock | MutexUnlock | ListAccess

text \<open>\<open>guarded held es\<close>: every list access of the trace \<open>es\<close> happens with the mutex held,
  when the trace starts with the mutex \<open>held\<close> or not.\<close>

fun guarded :: "bool \<Rightarrow> event list \<Rightarrow> bool" where
  "guarded held [] = True"
| "guarded held (MutexLock # es) = guarded True es"
| "guarded held (MutexUnlock # es) = guarded False es"
| "guarded held (ListAccess # es) = (held \<and> guarded held es)"

definition add_osc ::
  "audio_player \<Rightarrow> int32 \<Rightarrow> float list \<Rightarrow> int32 \<Rightarrow> breakpoints \<Rightarrow> float \<Rightarrow> float \<Rightarrow> float \<Rightarrow>
   float \<Rightarrow> event list \<times> audio_player" where
  "add_osc player ident table tlen bp fr ampl length_s waittime =
     (let osc = new_osc ident table tlen bp (player_samplerate player) fr ampl length_s waittime
      in ([MutexLock, ListAccess, MutexUnlock],
          player\<lparr>osc_list := oscil_list_add (osc_list player) osc\<rparr>))"

text \<open>The inner \<^verbatim>\<open>while\<close> loop of the callback: every oscillator of the list is ticked,
  in list order, and its sample is added to \<^verbatim>\<open>val\<close> in single precision.\<close>

fun tick_all :: "oscillator list \<Rightarrow> fsample \<Rightarrow> fsample \<times> oscillator list" where
  "tick_all [] v = (v, [])"
| "tick_all (osc # rest) v =
     (let (s, osc') = oscil_tick osc;
          (v', rest') = tick_all rest (s_add v s)
      in (v', osc' # rest'))"

text \<open>The outer \<^verbatim>\<open>for\<close> loop: \<^verbatim>\<open>val = 0\<close>, the inner loop, \<^verbatim>\<open>out[i] = val\<close>.\<close>

fun render_loop :: "nat \<Rightarrow> oscillator list \<Rightarrow> fsample list \<times> oscillator list" where
  "render_loop 0 oscs = ([], oscs)"
| "render_loop (Suc n) oscs =
     (let (v, oscs') = tick_all oscs (Inr (Fin 0));
          (out, oscs'') = render_loop n oscs'
      in (v # out, oscs''))"

text \<open>\<^verbatim>\<open>audio_player_callback\<close>: the trace, the output buffer, and the player afterwards
  (the function itself returns 0).\<close>

definition audio_player_callback ::
  "audio_player \<Rightarrow> nat \<Rightarrow> event list \<times> fsample list \<times> audio_player" where
  "audio_player_callback player framesPerBuffer =
     (let (out, oscs') = render_loop framesPerBuffer (osc_list player);
          player1 = player\<lparr>osc_list := oscs'\<rparr>;
          player2 = (if write_output player1 then player1\<lparr>outfile := outfile player1 @ out\<rparr>
                     else player1)
      in ([MutexLock, ListAccess, MutexUnlock], out, player2))"

text \<open>The loop of \<^verbatim>\<open>synch_update\<close>. \<open>i\<close> is the position of the node \<^verbatim>\<open>curr\<close>. When the
  oscillator at \<open>i\<close> is expired, \<^verbatim>\<open>oscil_list_remove\<close> is called with its id, and
  \<^verbatim>\<open>curr\<close> becomes the node that followed: the removed node is at \<open>i\<close> or before it, so
  that node is at position \<open>i\<close> of the new list.\<close>

function synch_loop :: "oscillator list \<Rightarrow> nat \<Rightarrow> oscillator list" where
  "synch_loop oscs i =
     (if i < length oscs then
        (if oscil_expired (oscs ! i) \<noteq> 0
         then synch_loop (oscil_list_remove oscs (osc_id (oscs ! i))) i
         else synch_loop oscs (i + 1))
      else oscs)"
  by pat_completeness auto
termination
proof (relation "measure (\<lambda>(oscs, i). length oscs - i)")
  show "wf (measure (\<lambda>(oscs :: oscillator list, i :: nat). length oscs - i))"
    by simp
next
  fix oscs :: "oscillator list" and i :: nat
  assume i: "i < length oscs"
  have shorter: "ident \<in> osc_id ` set xs \<Longrightarrow>
      Suc (length (oscil_list_remove xs ident)) = length xs" for xs ident
    by (induction xs) auto
  have "osc_id (oscs ! i) \<in> osc_id ` set oscs"
    using i by simp
  then have "Suc (length (oscil_list_remove oscs (osc_id (oscs ! i)))) = length oscs"
    by (rule shorter)
  then show "((oscil_list_remove oscs (osc_id (oscs ! i)), i), (oscs, i))
      \<in> measure (\<lambda>(oscs, i). length oscs - i)"
    using i by simp
next
  fix oscs :: "oscillator list" and i :: nat
  assume "i < length oscs"
  then show "((oscs, i + 1), (oscs, i)) \<in> measure (\<lambda>(oscs, i). length oscs - i)"
    by simp
qed

declare synch_loop.simps [simp del]

text \<open>\<^verbatim>\<open>synch_update\<close>: it starts at \<^verbatim>\<open>player->osc_list\<close> and runs the loop; the source
  calls neither \<^verbatim>\<open>pthread_mutex_lock\<close> nor \<^verbatim>\<open>pthread_mutex_unlock\<close>.\<close>

definition synch_update :: "audio_player \<Rightarrow> event list \<times> audio_player" where
  "synch_update player =
     ([ListAccess], player\<lparr>osc_list := synch_loop (osc_list player) 0\<rparr>)"

subsection \<open>Example data\<close>

text \<open>A two-point envelope, a four-entry table, the values \<^verbatim>\<open>sscanf\<close> stores for the lines
  of the example envelope files (no other line occurs in them), a player whose list
  holds an oscillator aged past its duration followed by a fresh one, and a player with
  two fresh oscillators of amplitudes 2 and 3.\<close>

definition example_bp :: breakpoints where
  "example_bp =
     \<lparr>bp_list = [\<lparr>time = 0, val = 0\<rparr>, \<lparr>time = 10, val = 1\<rparr>], len = 2, maxtime = 10\<rparr>"

definition example_tab :: "float list" where
  "example_tab = [Fin 0, Fin 1, Fin 0, Fin (- 1)]"

definition example_sscanf :: "string \<Rightarrow> (real \<times> real) option" where
  "example_sscanf =
     map_of [(''0, 1'', (0, 1)), (''5, 2'', (5, 2)), (''5, 3'', (5, 3)), (''3, 4'', (3, 4))]"

definition example_player :: audio_player where
  "example_player =
     \<lparr>osc_list =
        [(new_osc 2 example_tab 4 example_bp 4 (Fin 1) (Fin 2) (Fin 2) (Fin 0))\<lparr>curr_sample := 9\<rparr>,
         new_osc 1 example_tab 4 example_bp 4 (Fin 1) (Fin 1) (Fin 2) (Fin 0)],
      write_output = False, outfile = [], player_samplerate = 4\<rparr>"


section \<open>Facts about single precision arithmetic\<close>

lemma round_half_even_of_int: "round_half_even (real_of_int n) = n"
  by (simp add: round_half_even_def)


lemma floor_log2_eq:
  assumes "0 < x" "2 powi k \<le> x" "x < 2 powi (k + 1)"
  shows "\<lfloor>log 2 x\<rfloor> = k"
proof -
  have "(2 :: real) powr real_of_int k = 2 powi k"
    by (simp add: powr_real_of_int')
  moreover have "(2 :: real) powr (real_of_int k + 1) = 2 powi (k + 1)"
    using powr_real_of_int' [of 2 "k + 1"] by simp
  ultimately have "2 powr real_of_int k \<le> x \<and> x < 2 powr (real_of_int k + 1)"
    using assms by simp
  then show ?thesis
    using floor_log_eq_powr_iff [of x 2 k] assms(1) by simp
qed

lemma floor_log2_bounds:
  assumes "0 < x"
  shows "2 powi \<lfloor>log 2 x\<rfloor> \<le> x" "x < 2 powi (\<lfloor>log 2 x\<rfloor> + 1)"
proof -
  have "2 powr real_of_int \<lfloor>log 2 x\<rfloor> \<le> x \<and> x < 2 powr (real_of_int \<lfloor>log 2 x\<rfloor> + 1)"
    using floor_log_eq_powr_iff [of x 2 "\<lfloor>log 2 x\<rfloor>"] assms by simp
  moreover have "(2 :: real) powr real_of_int \<lfloor>log 2 x\<rfloor> = 2 powi \<lfloor>log 2 x\<rfloor>"
    by (simp add: powr_real_of_int')
  moreover have "(2 :: real) powr (real_of_int \<lfloor>log 2 x\<rfloor> + 1) = 2 powi (\<lfloor>log 2 x\<rfloor> + 1)"
    using powr_real_of_int' [of 2 "\<lfloor>log 2 x\<rfloor> + 1"] by simp
  ultimately show "2 powi \<lfloor>log 2 x\<rfloor> \<le> x" "x < 2 powi (\<lfloor>log 2 x\<rfloor> + 1)"
    by simp_all
qed

lemma powi2_less_imp: "(2 :: real) powi a \<le> x \<Longrightarrow> x < 2 powi b \<Longrightarrow> a < b"
proof (rule ccontr)
  assume a: "(2 :: real) powi a \<le> x" "x < 2 powi b" and "\<not> a < b"
  then have "b \<le> a" by simp
  then have "(2 :: real) powi b \<le> 2 powi a"
    by (intro power_int_increasing) simp_all
  with a show False by simp
qed

text \<open>Where the binary exponent \<open>k\<close> of \<open>x\<close> is known, the rounding is a rounding of
  \<open>x / 2 ^ (k - p + 1)\<close> to an integer.\<close>

lemma round_to_at:
  assumes "x \<noteq> 0" "2 powi k \<le> \<bar>x\<bar>" "\<bar>x\<bar> < 2 powi (k + 1)" "emin \<le> k"
  shows "round_to p emin x =
    real_of_int (round_half_even (x / 2 powi (k - (int p - 1)))) * 2 powi (k - (int p - 1))"
proof -
  have "\<lfloor>log 2 \<bar>x\<bar>\<rfloor> = k"
    using assms by (intro floor_log2_eq) simp_all
  then show ?thesis
    using assms(1,4) by (simp add: round_to_def Let_def max_def)
qed

lemma round_to_exact:
  assumes "x \<noteq> 0" "2 powi k \<le> \<bar>x\<bar>" "\<bar>x\<bar> < 2 powi (k + 1)" "emin \<le> k"
    and "x / 2 powi (k - (int p - 1)) = real_of_int m"
  shows "round_to p emin x = x"
proof -
  have "round_to p emin x = real_of_int m * 2 powi (k - (int p - 1))"
    using round_to_at [OF assms(1-4), of p] by (simp add: assms(5) round_half_even_of_int)
  also have "\<dots> = x"
    using assms(5) by (simp add: field_simps)
  finally show ?thesis .
qed

lemma f32r_0: "f32r 0 = 0"
  by (simp add: f32r_def round_to_def)

text \<open>A number \<open>m * 2 ^ e\<close> with \<open>|m| < 2 ^ 24\<close> and \<open>e \<ge> - 126\<close> is not changed.\<close>

lemma f32r_scaled:
  assumes m: "m \<noteq> 0" "\<bar>m\<bar> < 2 ^ 24" and e: "- 126 \<le> e"
  shows "f32r (real_of_int m * 2 powi e) = real_of_int m * 2 powi e"
proof -
  define L where "L = \<lfloor>log 2 \<bar>real_of_int m\<bar>\<rfloor>"
  have mpos: "0 < \<bar>real_of_int m\<bar>" using m by simp
  have lo: "2 powi L \<le> \<bar>real_of_int m\<bar>" and hi: "\<bar>real_of_int m\<bar> < 2 powi (L + 1)"
    unfolding L_def using floor_log2_bounds [OF mpos] by simp_all
  have "1 \<le> \<bar>real_of_int m\<bar>" using m by (simp flip: of_int_abs)
  then have "(2 :: real) powi 0 \<le> \<bar>real_of_int m\<bar>" by simp
  from powi2_less_imp [OF this hi] have L0: "0 \<le> L" by simp
  have "\<bar>real_of_int m\<bar> < 2 powi 24"
    using m(2) by (simp flip: of_int_abs)
  from powi2_less_imp [OF lo this] have L23: "L \<le> 23" by simp
  let ?x = "real_of_int m * 2 powi e"
  have x0: "?x \<noteq> 0" using m by simp
  have ax: "\<bar>?x\<bar> = \<bar>real_of_int m\<bar> * 2 powi e" by (simp add: abs_mult)
  have xlo: "2 powi (L + e) \<le> \<bar>?x\<bar>"
    unfolding ax using lo by (simp add: power_int_add)
  have xhi: "\<bar>?x\<bar> < 2 powi (L + e + 1)"
  proof -
    have "\<bar>real_of_int m\<bar> * 2 powi e < 2 powi (L + 1) * 2 powi e"
      using hi by (intro mult_strict_right_mono) simp_all
    also have "\<dots> = 2 powi (L + e + 1)"
      by (simp add: power_int_add)
    finally show ?thesis unfolding ax .
  qed
  have emin: "- 126 \<le> L + e" using L0 e by simp
  have "?x / 2 powi (L + e - (int 24 - 1)) = real_of_int m * 2 powi (23 - L)"
    by (simp add: power_int_diff power_int_add field_simps)
  also have "\<dots> = real_of_int (m * 2 ^ nat (23 - L))"
    using L23 by (simp add: power_int_def)
  finally have ex: "?x / 2 powi (L + e - (int 24 - 1)) = real_of_int (m * 2 ^ nat (23 - L))" .
  show ?thesis
    unfolding f32r_def by (rule round_to_exact [OF x0 xlo xhi emin ex])
qed

text \<open>An integer of absolute value at most \<open>2 ^ 24\<close> is converted exactly.\<close>

lemma f32r_of_int:
  assumes "\<bar>n\<bar> \<le> 16777216"
  shows "f32r (real_of_int n) = real_of_int n"
proof -
  consider "n = 0" | "n \<noteq> 0" "\<bar>n\<bar> < 2 ^ 24" | "n = 16777216" | "n = - 16777216"
    using assms by fastforce
  then show ?thesis
  proof cases
    case 1
    then show ?thesis by (simp add: f32r_0)
  next
    case 2
    from f32r_scaled [OF 2, of 0] show ?thesis by simp
  next
    case 3
    from f32r_scaled [of 8388608 1] 3 show ?thesis by simp
  next
    case 4
    from f32r_scaled [of "- 8388608" 1] 4 show ?thesis by simp
  qed
qed


lemma representable_0: "representable 0"
  by (simp add: representable_def f32r_0)

lemma representable_of_int: "\<bar>n\<bar> \<le> 16777216 \<Longrightarrow> representable (real_of_int n)"
proof -
  assume a: "\<bar>n\<bar> \<le> 16777216"
  then have "\<bar>real_of_int n\<bar> \<le> 16777216"
    by (simp flip: of_int_abs)
  then have "\<bar>real_of_int n\<bar> < 2 ^ 128" by simp
  with a show ?thesis by (simp add: representable_def f32r_of_int)
qed

lemma representable_numeral: "(numeral k :: int) \<le> 16777216 \<Longrightarrow> representable (numeral k)"
  using representable_of_int [of "numeral k"] by simp


lemma representable_1: "representable 1"
  using representable_of_int [of 1] by simp

lemma representable_div_pow2:
  assumes "\<bar>m\<bar> < 16777216" "j \<le> 126"
  shows "representable (real_of_int m / 2 ^ j)"
proof (cases "m = 0")
  case True
  then show ?thesis by (simp add: representable_0)
next
  case False
  have eq: "real_of_int m / 2 ^ j = real_of_int m * 2 powi (- int j)"
    by (simp add: power_int_minus field_simps)
  have "f32r (real_of_int m * 2 powi (- int j)) = real_of_int m * 2 powi (- int j)"
    using False assms by (intro f32r_scaled) simp_all
  moreover have "\<bar>real_of_int m / 2 ^ j\<bar> < 2 ^ 128"
  proof -
    have "\<bar>real_of_int m\<bar> < 16777216" using assms(1) by (simp flip: of_int_abs)
    moreover have "\<bar>real_of_int m / 2 ^ j\<bar> \<le> \<bar>real_of_int m\<bar>"
    proof -
      have "\<bar>real_of_int m\<bar> * 1 \<le> \<bar>real_of_int m\<bar> * 2 ^ j"
        by (intro mult_left_mono) simp_all
      then show ?thesis by (simp add: abs_divide field_simps)
    qed
    ultimately show ?thesis by simp
  qed
  ultimately show ?thesis by (simp add: representable_def eq)
qed

lemma to_float_representable: "representable x \<Longrightarrow> to_float x = Fin x"
  by (auto simp: representable_def to_float_def Let_def)

lemma int_to_float_small:
  "\<bar>sint i\<bar> \<le> 16777216 \<Longrightarrow> int_to_float i = Fin (real_of_int (sint i))"
  by (simp only: int_to_float_def f32r_of_int)

lemma f32r_numeral: "(numeral k :: int) \<le> 16777216 \<Longrightarrow> f32r (numeral k) = numeral k"
  using f32r_of_int [of "numeral k"] by simp






lemma f32r_below_five: "f32r (41943039 / 8388608) = 5"
proof -
  have "f32r (41943039 / 8388608) =
      real_of_int (round_half_even (41943039 / 8388608 / 2 powi (2 - (int 24 - 1)))) * 2 powi (2 - (int 24 - 1))"
    unfolding f32r_def by (rule round_to_at) simp_all
  also have "\<dots> = 5"
    by (simp add: round_half_even_def Let_def power_int_minus)
  finally show ?thesis .
qed




lemma sint_add_small:
  fixes a b :: "32 word"
  assumes "- 2147483648 \<le> sint a + sint b" "sint a + sint b \<le> 2147483647"
  shows "sint (a + b) = sint a + sint b"
proof -
  have "sint (a + b) = signed_take_bit (LENGTH(32) - 1) (sint a + sint b)"
    by (rule sint_word_ariths)
  also have "\<dots> = signed_take_bit 31 (sint a + sint b)"
    by simp
  also have "\<dots> = sint a + sint b"
    using assms by (intro signed_take_bit_int_eq_self) simp_all
  finally show ?thesis .
qed


lemma sint_sub_small:
  fixes a b :: "32 word"
  assumes "- 2147483648 \<le> sint a - sint b" "sint a - sint b \<le> 2147483647"
  shows "sint (a - b) = sint a - sint b"
proof -
  have "sint (a - b) = signed_take_bit (LENGTH(32) - 1) (sint a - sint b)"
    by (rule sint_word_ariths)
  also have "\<dots> = signed_take_bit 31 (sint a - sint b)"
    by simp
  also have "\<dots> = sint a - sint b"
    using assms by (intro signed_take_bit_int_eq_self) simp_all
  finally show ?thesis .
qed

section \<open>Envelope evaluation\<close>

lemma scan_loop_runs_to_end:
  "len bp = int (length (bp_list bp)) \<Longrightarrow> 0 \<le> i \<Longrightarrow> i \<le> len bp - 1 \<Longrightarrow>
   \<forall>b\<in>set (bp_list bp). time b \<le> t \<Longrightarrow> scan_loop bp t i = Inr (len bp - 1)"
proof (induction bp t i rule: scan_loop.induct)
  case (1 bp t i)
  show ?case
  proof (cases "i < len bp - 1")
    case False
    with "1.prems" show ?thesis by (simp add: scan_loop.simps [of bp t i])
  next
    case True
    with "1.prems" have inb: "0 \<le> i + 1" "i + 1 < int (length (bp_list bp))" by simp_all
    then have lt: "list_time bp (i + 1) = Inr (time (bp_list bp ! nat (i + 1)))"
      by (simp add: list_time_def)
    have "bp_list bp ! nat (i + 1) \<in> set (bp_list bp)"
      using inb by simp
    with "1.prems" have le: "\<not> time (bp_list bp ! nat (i + 1)) > t" by fastforce
    have "scan_loop bp t i = scan_loop bp t (i + 1)"
      using True lt le by (simp add: scan_loop.simps [of bp t i])
    also have "\<dots> = Inr (len bp - 1)"
      using "1.IH" [OF True lt le "1.prems"(1)] True "1.prems" by simp
    finally show ?thesis .
  qed
qed

text \<open>When no breakpoint lies after \<open>t\<close>, the loop stops at \<open>i = len - 1\<close>. The test
  \<^verbatim>\<open>i == bp->len\<close> is then false, and the interpolation reads \<^verbatim>\<open>list[len]\<close>: for every
  non-empty envelope whose \<open>len\<close> is the length of its array, the query ends in a read
  past the array.\<close>

lemma get_timeval_never_clamps:
  assumes "len bp = int (length (bp_list bp))" "bp_list bp \<noteq> []" "0 \<le> t"
    and "\<forall>b\<in>set (bp_list bp). time b \<le> t"
  shows "get_timeval bp t = ([], Inl OutOfBounds)"
proof -
  have pos: "0 < len bp" using assms(1,2) by simp
  have s: "scan_loop bp t 0 = Inr (len bp - 1)"
    using assms pos by (intro scan_loop_runs_to_end) simp_all
  have a: "list_time bp (len bp) = Inl OutOfBounds" "list_val bp (len bp) = Inl OutOfBounds"
    using assms(1) by (simp_all add: list_time_def list_val_def)
  have b: "list_time bp (len bp - 1) = Inr (time (bp_list bp ! nat (len bp - 1)))"
    "list_val bp (len bp - 1) = Inr (val (bp_list bp ! nat (len bp - 1)))"
    using assms(1) pos by (simp_all add: list_time_def list_val_def)
  show ?thesis
    using assms(3) pos by (simp add: get_timeval_def s a b Let_def)
qed

text \<open>Claim C1: for a non-empty breakpoint list and a time \<open>t\<close> at or after the time of the
  last breakpoint, \<^verbatim>\<open>get_timeval\<close> returns the value of the last breakpoint instead of
  reading past the list. The source does not: on the envelope \<open>(0,0), (10,1)\<close> the queries
  at 10 and at 11, and on the one-point envelope \<open>(0,1)\<close> the query at 0, all read the entry
  after the last one.\<close>

theorem get_timeval_reads_past_list:
  "get_timeval example_bp 10 = ([], Inl OutOfBounds) \<and>
   get_timeval example_bp 11 = ([], Inl OutOfBounds) \<and>
   get_timeval \<lparr>bp_list = [\<lparr>time = 0, val = 1\<rparr>], len = 1, maxtime = 0\<rparr> 0
     = ([], Inl OutOfBounds)"
  by (simp add: get_timeval_def example_bp_def scan_loop.simps list_time_def list_val_def)

text \<open>Claim C7: when \<open>t < 0\<close> or the breakpoint list is empty (\<open>len = 0\<close>), \<^verbatim>\<open>get_timeval\<close>
  returns the value 0 and prints a message that names the condition; it returns normally.
  The same holds for a \<^verbatim>\<open>get_percentval\<close> query whose time \<open>maxtime * p\<close> is negative or
  whose list is empty.\<close>

theorem get_timeval_fallback:
  "(t < 0 \<or> len bp = 0 \<longrightarrow>
      get_timeval bp t = ([if t < 0 then msg_negative else msg_empty], Inr 0)) \<and>
   (maxtime bp * p < 0 \<or> len bp = 0 \<longrightarrow>
      get_percentval bp p = ([if maxtime bp * p < 0 then msg_negative else msg_empty], Inr 0))"
  by (simp add: get_timeval_def get_percentval_def)

theorem get_timeval_fallback_witness:
  "(- 1 :: real) < 0 \<and>
   get_timeval example_bp (- 1) = ([msg_negative], Inr 0) \<and>
   len \<lparr>bp_list = [], len = 0, maxtime = 3\<rparr> = 0 \<and>
   get_timeval \<lparr>bp_list = [], len = 0, maxtime = 3\<rparr> 2 = ([msg_empty], Inr 0) \<and>
   get_percentval \<lparr>bp_list = [], len = 0, maxtime = 3\<rparr> (1 / 2) = ([msg_empty], Inr 0) \<and>
   get_percentval example_bp (- 1 / 2) = ([msg_negative], Inr 0)"
  using get_timeval_fallback [of "- 1" example_bp "- 1 / 2"]
    get_timeval_fallback [of 2 "\<lparr>bp_list = [], len = 0, maxtime = 3\<rparr>" "1 / 2"]
  by (simp add: example_bp_def)

section \<open>Loading an envelope file\<close>

lemma example_sscanf_lines:
  "example_sscanf ''0, 1'' = Some (0, 1)" "example_sscanf ''5, 2'' = Some (5, 2)"
  "example_sscanf ''5, 3'' = Some (5, 3)" "example_sscanf ''3, 4'' = Some (3, 4)"
  by (simp_all add: example_sscanf_def)

lemma load_loop_all_parse:
  "load_loop alloc sc ls cap acc tm = Inr r \<Longrightarrow> l \<in> set ls \<Longrightarrow> sc l \<noteq> None"
  by (induction ls arbitrary: cap acc tm)
     (auto simp: Let_def split: if_splits option.splits)

lemma load_loop_first_zero:
  "load_loop alloc sc (l # rest) cap [] tm = Inr r \<Longrightarrow> sc l = Some (t, v) \<Longrightarrow> t = 0"
  by (auto simp: Let_def split: if_splits option.splits)

lemma load_loop_head_not_before:
  "load_loop alloc sc (l # rest) cap acc tm = Inr r \<Longrightarrow> acc \<noteq> [] \<Longrightarrow>
   sc l = Some (t, v) \<Longrightarrow> time (last acc) \<le> t"
  by (auto simp: Let_def split: if_splits option.splits)

lemma load_loop_tail:
  "load_loop alloc sc (l # rest) cap acc tm = Inr r \<Longrightarrow> sc l = Some (t, v) \<Longrightarrow>
   \<exists>cap'. load_loop alloc sc rest cap' (acc @ [\<lparr>time = t, val = v\<rparr>]) t = Inr r"
  by (auto simp: Let_def split: if_splits option.splits)

lemma load_loop_times_ordered:
  "load_loop alloc sc ls cap acc tm = Inr r \<Longrightarrow> Suc i < length ls \<Longrightarrow>
   sc (ls ! i) = Some (t, v) \<Longrightarrow> sc (ls ! Suc i) = Some (t', v') \<Longrightarrow> t \<le> t'"
proof (induction ls arbitrary: cap acc tm i)
  case Nil
  then show ?case by simp
next
  case (Cons l rest)
  show ?case
  proof (cases i)
    case 0
    with Cons.prems obtain l2 rest2 where rest: "rest = l2 # rest2"
      by (cases rest) auto
    from 0 Cons.prems have l: "sc l = Some (t, v)" by simp
    from 0 Cons.prems rest have l2: "sc l2 = Some (t', v')" by simp
    from load_loop_tail [OF Cons.prems(1) l] obtain cap' where
      "load_loop alloc sc (l2 # rest2) cap' (acc @ [\<lparr>time = t, val = v\<rparr>]) t = Inr r"
      using rest by auto
    from load_loop_head_not_before [OF this _ l2] show ?thesis by simp
  next
    case (Suc j)
    from Cons.prems(2) have "sc l \<noteq> None"
      using load_loop_all_parse [OF Cons.prems(1), of l] by simp
    then obtain t0 v0 where l: "sc l = Some (t0, v0)" by auto
    from load_loop_tail [OF Cons.prems(1) l] obtain cap' where
      tl: "load_loop alloc sc rest cap' (acc @ [\<lparr>time = t0, val = v0\<rparr>]) t0 = Inr r"
      by auto
    from Cons.IH [OF tl, of j] Cons.prems Suc show ?thesis by simp
  qed
qed

lemma load_bp_file_Inr_loop:
  "load_bp_file alloc sc time0 lines = Inr bp \<Longrightarrow>
   \<exists>r. load_loop alloc sc lines 5 [] time0 = Inr r"
  by (auto simp: load_bp_file_def split: if_splits sum.splits)

text \<open>Claim C4, as the source has it: \<^verbatim>\<open>load_bp_file\<close> returns \<^verbatim>\<open>NULL\<close> whenever some line
  does not scan as a pair, or the first time is not 0, or some time is strictly smaller
  than the time on the line before it. (Equal consecutive times are not among the
  rejected files, see the next theorem.)\<close>

theorem load_bp_file_rejects_malformed:
  assumes "(\<exists>l. l \<in> set lines \<and> sscanf_pair l = None) \<or>
     (\<exists>l rest t v. lines = l # rest \<and> sscanf_pair l = Some (t, v) \<and> t \<noteq> 0) \<or>
     (\<exists>i t v t' v'. Suc i < length lines \<and> sscanf_pair (lines ! i) = Some (t, v) \<and>
        sscanf_pair (lines ! Suc i) = Some (t', v') \<and> t' < t)"
  shows "\<exists>e. load_bp_file alloc sscanf_pair time0 lines = Inl e"
proof (cases "load_bp_file alloc sscanf_pair time0 lines")
  case (Inl e)
  then show ?thesis by blast
next
  case (Inr bp)
  then obtain r where r: "load_loop alloc sscanf_pair lines 5 [] time0 = Inr r"
    using load_bp_file_Inr_loop by blast
  from assms consider
    (parse) l where "l \<in> set lines" "sscanf_pair l = None"
  | (first) l rest t v where "lines = l # rest" "sscanf_pair l = Some (t, v)" "t \<noteq> 0"
  | (order) i t v t' v' where "Suc i < length lines" "sscanf_pair (lines ! i) = Some (t, v)"
      "sscanf_pair (lines ! Suc i) = Some (t', v')" "t' < t"
    by blast
  then have False
  proof cases
    case parse
    with load_loop_all_parse [OF r] show False by blast
  next
    case first
    with load_loop_first_zero r show False by blast
  next
    case order
    with load_loop_times_ordered [OF r] show False by fastforce
  qed
  then show ?thesis ..
qed

theorem load_bp_file_rejects_malformed_witness:
  "Suc 1 < length [''0, 1'', ''5, 2'', ''3, 4''] \<and>
   example_sscanf ([''0, 1'', ''5, 2'', ''3, 4''] ! 1) = Some (5, 2) \<and>
   example_sscanf ([''0, 1'', ''5, 2'', ''3, 4''] ! Suc 1) = Some (3, 4) \<and>
   (3 :: real) < 5 \<and>
   (\<exists>e. load_bp_file (\<lambda>n. True) example_sscanf 0 [''0, 1'', ''5, 2'', ''3, 4''] = Inl e)"
proof -
  let ?lines = "[''0, 1'', ''5, 2'', ''3, 4'']"
  have h: "Suc 1 < length ?lines \<and> example_sscanf (?lines ! 1) = Some (5, 2) \<and>
     example_sscanf (?lines ! Suc 1) = Some (3, 4) \<and> (3 :: real) < 5"
    by (simp add: example_sscanf_lines)
  then have "\<exists>i t v t' v'. Suc i < length ?lines \<and>
        example_sscanf (?lines ! i) = Some (t, v) \<and>
        example_sscanf (?lines ! Suc i) = Some (t', v') \<and> t' < t"
    by (intro exI [of _ 1] exI [of _ 5] exI [of _ 2] exI [of _ 3] exI [of _ 4])
  then have "(\<exists>l. l \<in> set ?lines \<and> example_sscanf l = None) \<or>
     (\<exists>l rest t v. ?lines = l # rest \<and> example_sscanf l = Some (t, v) \<and> t \<noteq> 0) \<or>
     (\<exists>i t v t' v'. Suc i < length ?lines \<and>
        example_sscanf (?lines ! i) = Some (t, v) \<and>
        example_sscanf (?lines ! Suc i) = Some (t', v') \<and> t' < t)"
    by (intro disjI2)
  from load_bp_file_rejects_malformed [OF this] have
    "\<exists>e. load_bp_file (\<lambda>n. True) example_sscanf 0 ?lines = Inl e" .
  with h show ?thesis by (intro conjI) (elim conjE, assumption)+
qed

text \<open>The file with the lines \<open>0, 1\<close>, \<open>5, 2\<close>, \<open>5, 3\<close> has two consecutive breakpoints with
  the same time 5, and it is loaded: the test of the source is \<^verbatim>\<open>time < previous\<close>.\<close>

theorem load_bp_file_accepts_equal_times:
  "example_sscanf ''5, 2'' = Some (5, 2) \<and> example_sscanf ''5, 3'' = Some (5, 3) \<and>
   load_bp_file (\<lambda>n. True) example_sscanf 0 [''0, 1'', ''5, 2'', ''5, 3''] =
     Inr \<lparr>bp_list = [\<lparr>time = 0, val = 1\<rparr>, \<lparr>time = 5, val = 2\<rparr>, \<lparr>time = 5, val = 3\<rparr>],
          len = 3, maxtime = 5\<rparr>"
  by (simp add: load_bp_file_def example_sscanf_lines)

section \<open>The oscillator\<close>






















text \<open>The product is rounded before the quotient is truncated: with the frequency
  \<open>13981013 / 2 ^ 23\<close> (a single precision number just below \<open>5 / 3\<close>), a table of 3 entries
  and a sample rate of 1 the exact product lies below 5, its rounding is 5, and the
  increment is 5.\<close>

lemma increment_rounds_then_truncates:
  "representable (13981013 / 2 ^ 23) \<and>
   (13981013 / 2 ^ 23 :: real) * 3 / 1 < 5 \<and>
   inc (new_osc 1 example_tab 3 example_bp 1 (Fin (13981013 / 2 ^ 23)) (Fin 1) (Fin 2) (Fin 0)) = 5"
proof -
  have "representable (13981013 / 2 ^ 23)"
    using representable_div_pow2 [of 13981013 23] by simp
  moreover have "inc (new_osc 1 example_tab 3 example_bp 1 (Fin (13981013 / 2 ^ 23)) (Fin 1) (Fin 2)
      (Fin 0)) = 5"
    using f32r_below_five
    by (simp add: new_osc_def int_to_float_small to_float_def Let_def f32r_numeral c_trunc_def)
  ultimately show ?thesis by simp
qed

text \<open>While the increment lies in \<open>[0, tablen)\<close> (and the table length is below \<open>2 ^ 30\<close>), a
  tick keeps the index within \<open>[0, tablen]\<close>, the upper end included: the wrap is taken
  only when the index exceeds \<open>tablen\<close>.\<close>

lemma tick_index_cases:
  "index (snd (oscil_tick osc)) = index osc \<and> inc (snd (oscil_tick osc)) = inc osc \<or>
   index (snd (oscil_tick osc)) =
     (if sint (index osc + inc (snd (oscil_tick osc))) > sint (tablen osc)
      then index osc + inc (snd (oscil_tick osc)) - tablen osc
      else index osc + inc (snd (oscil_tick osc)))"
  by (simp add: oscil_tick_def Let_def)

lemma tick_index_bounds:
  assumes "0 \<le> sint (index osc)" "sint (index osc) \<le> sint (tablen osc)"
    "sint (tablen osc) \<le> 1073741823"
    and "0 \<le> sint (inc (snd (oscil_tick osc)))"
    "sint (inc (snd (oscil_tick osc))) < sint (tablen osc)"
  shows "0 \<le> sint (index (snd (oscil_tick osc))) \<and>
    sint (index (snd (oscil_tick osc))) \<le> sint (tablen osc)"
proof -
  let ?i = "inc (snd (oscil_tick osc))"
  have s: "sint (index osc + ?i) = sint (index osc) + sint ?i"
    using assms by (intro sint_add_small) simp_all
  have d: "sint (index osc + ?i - tablen osc) = sint (index osc) + sint ?i - sint (tablen osc)"
    using assms sint_sub_small [of "index osc + ?i" "tablen osc"] by (simp add: s)
  from tick_index_cases [of osc] show ?thesis
    using assms by (auto simp: s d split: if_splits)
qed

text \<open>Claim C10: when the phase increment is strictly less than \<open>tablen\<close> and the index
  starts at 0, the index lies in \<open>[0, tablen)\<close> after every tick, so that the next table
  read is within the table. The source does not keep this: with a table of 4 entries, a
  sample rate of 4 and a frequency of 2 the increment is \<open>2 < 4\<close>, the index is 4 after two
  ticks (\<^verbatim>\<open>4 > 4\<close> is false, no wrap), and the third tick reads \<open>tab[4]\<close>, one entry past the
  table.\<close>

theorem index_reaches_tablen:
  "(2 :: real) * 4 / 4 < 4 \<and>
   index (new_osc 1 example_tab 4 example_bp 4 (Fin 2) (Fin 1) (Fin 2) (Fin 0)) = 0 \<and>
   length (tab (ticked 2 (new_osc 1 example_tab 4 example_bp 4 (Fin 2) (Fin 1) (Fin 2) (Fin 0)))) = 4 \<and>
   tablen (ticked 2 (new_osc 1 example_tab 4 example_bp 4 (Fin 2) (Fin 1) (Fin 2) (Fin 0))) = 4 \<and>
   index (ticked 2 (new_osc 1 example_tab 4 example_bp 4 (Fin 2) (Fin 1) (Fin 2) (Fin 0))) = 4 \<and>
   tab_read (ticked 2 (new_osc 1 example_tab 4 example_bp 4 (Fin 2) (Fin 1) (Fin 2) (Fin 0)))
     (index (ticked 2 (new_osc 1 example_tab 4 example_bp 4 (Fin 2) (Fin 1) (Fin 2) (Fin 0))))
     = Inl OutOfBounds \<and>
   nth_tick 2 (new_osc 1 example_tab 4 example_bp 4 (Fin 2) (Fin 1) (Fin 2) (Fin 0))
     = Inl OutOfBounds"
  by (simp add: eval_nat_numeral nth_tick_def oscil_tick_def new_osc_def Let_def c_trunc_def
      example_tab_def example_bp_def tab_read_def get_percentval_def get_timeval_def
      scan_loop.simps list_time_def list_val_def
      int_to_float_small to_float_representable representable_numeral representable_0
      representable_1)

section \<open>The audio player\<close>










lemma remove_distinct:
  "distinct (map osc_id oscs) \<Longrightarrow> i < length oscs \<Longrightarrow>
   oscil_list_remove oscs (osc_id (oscs ! i)) = take i oscs @ drop (Suc i) oscs"
proof (induction oscs arbitrary: i)
  case Nil
  then show ?case by simp
next
  case (Cons a oscs)
  show ?case
  proof (cases i)
    case 0
    then show ?thesis by simp
  next
    case (Suc j)
    with Cons.prems have j: "j < length oscs" and d: "distinct (map osc_id oscs)"
      and "osc_id a \<notin> osc_id ` set oscs"
      by simp_all
    then have "osc_id a \<noteq> osc_id (oscs ! j)"
      by (metis imageI nth_mem)
    with Cons.IH [OF d j] Suc show ?thesis by simp
  qed
qed

lemma synch_loop_filter:
  "distinct (map osc_id oscs) \<Longrightarrow> i \<le> length oscs \<Longrightarrow>
   (\<forall>j<i. oscil_expired (oscs ! j) = 0) \<Longrightarrow>
   synch_loop oscs i = filter (\<lambda>osc. oscil_expired osc = 0) oscs"
proof (induction oscs i rule: synch_loop.induct)
  case (1 oscs i)
  let ?P = "\<lambda>osc. oscil_expired osc = 0"
  show ?case
  proof (cases "i < length oscs")
    case False
    with "1.prems" have "i = length oscs" by simp
    with "1.prems" have "\<forall>x\<in>set oscs. ?P x"
      by (auto simp: in_set_conv_nth)
    then have "filter ?P oscs = oscs" by simp
    with False show ?thesis by (simp add: synch_loop.simps [of oscs i])
  next
    case True
    note i = True
    have split: "oscs = take i oscs @ oscs ! i # drop (Suc i) oscs"
      using i by (rule id_take_nth_drop)
    show ?thesis
    proof (cases "oscil_expired (oscs ! i) \<noteq> 0")
      case True
      let ?r = "oscil_list_remove oscs (osc_id (oscs ! i))"
      have r: "?r = take i oscs @ drop (Suc i) oscs"
        using "1.prems"(1) i by (rule remove_distinct)
      have d: "distinct (map osc_id ?r)"
      proof -
        have "distinct (map osc_id (take i oscs @ oscs ! i # drop (Suc i) oscs))"
          using "1.prems"(1) split by simp
        then show ?thesis unfolding r by auto
      qed
      have l: "i \<le> length ?r" using i by (simp add: r)
      have p: "\<forall>j<i. oscil_expired (?r ! j) = 0"
        using "1.prems"(3) i by (simp add: r nth_append)
      have "synch_loop oscs i = synch_loop ?r i"
        using i True by (simp add: synch_loop.simps [of oscs i])
      also have "\<dots> = filter ?P ?r"
        using "1.IH"(1) [OF i True d l p] .
      also have "\<dots> = filter ?P (take i oscs) @ filter ?P (drop (Suc i) oscs)"
        by (simp add: r)
      also have "\<dots> = filter ?P (take i oscs @ oscs ! i # drop (Suc i) oscs)"
        using True by simp
      also have "\<dots> = filter ?P oscs"
        using split by simp
      finally show ?thesis .
    next
      case False
      then have e: "oscil_expired (oscs ! i) = 0" by simp
      have p: "\<forall>j<i + 1. oscil_expired (oscs ! j) = 0"
        using "1.prems"(3) e by (auto simp: less_Suc_eq)
      have "synch_loop oscs i = synch_loop oscs (i + 1)"
        using i e by (simp add: synch_loop.simps [of oscs i])
      also have "\<dots> = filter ?P oscs"
        using "1.IH"(2) [OF i _ "1.prems"(1) _ p] i e by simp
      finally show ?thesis .
    qed
  qed
qed

text \<open>Claim C8: for every oscillator list (the ids of a list are pairwise distinct: the
  header requires an id to be unique within its list), \<^verbatim>\<open>synch_update\<close> removes exactly
  the entries whose oscillator is expired and no others; the oscillators that remain are
  the same as before, in the same order, with every field unchanged, \<open>curr_sample\<close>
  included, and nothing else of the player changes.\<close>

theorem synch_update_removes_expired:
  "distinct (map osc_id (osc_list player)) \<Longrightarrow>
   snd (synch_update player) =
     player\<lparr>osc_list := filter (\<lambda>osc. oscil_expired osc = 0) (osc_list player)\<rparr>"
  by (simp add: synch_update_def synch_loop_filter)

lemma example_expired:
  "oscil_expired ((new_osc i example_tab 4 example_bp 4 (Fin 1) a (Fin 2) (Fin 0))
      \<lparr>curr_sample := 9\<rparr>) = 1"
  "oscil_expired (new_osc i example_tab 4 example_bp 4 (Fin 1) a (Fin 2) (Fin 0)) = 0"
  by (simp_all add: new_osc_def oscil_expired_def c_trunc_def int_to_float_small
      to_float_representable representable_numeral representable_0)

theorem synch_update_removes_expired_witness:
  "distinct (map osc_id (osc_list example_player)) \<and>
   oscil_expired (osc_list example_player ! 0) = 1 \<and>
   oscil_expired (osc_list example_player ! 1) = 0 \<and>
   snd (synch_update example_player) =
     example_player\<lparr>osc_list :=
       [new_osc 1 example_tab 4 example_bp 4 (Fin 1) (Fin 1) (Fin 2) (Fin 0)]\<rparr>"
proof -
  have d: "distinct (map osc_id (osc_list example_player))"
    by (simp add: example_player_def new_osc_def)
  have e: "oscil_expired (osc_list example_player ! 0) = 1"
    "oscil_expired (osc_list example_player ! 1) = 0"
    by (simp_all add: example_player_def example_expired)
  have f: "filter (\<lambda>osc. oscil_expired osc = 0) (osc_list example_player) =
      [new_osc 1 example_tab 4 example_bp 4 (Fin 1) (Fin 1) (Fin 2) (Fin 0)]"
    by (simp add: example_player_def example_expired)
  from synch_update_removes_expired [OF d] d e f show ?thesis by simp
qed

text \<open>The distinctness of the ids is used: \<^verbatim>\<open>oscil_list_remove\<close> removes the first node
  with the id. In a list that breaks the requirement, where a fresh oscillator is followed
  by an expired one with the same id, the fresh one is removed and the expired one stays.\<close>

lemma synch_update_same_id:
  "osc_list (snd (synch_update
      \<lparr>osc_list = [new_osc 1 example_tab 4 example_bp 4 (Fin 1) (Fin 1) (Fin 2) (Fin 0),
                   (new_osc 1 example_tab 4 example_bp 4 (Fin 1) (Fin 1) (Fin 2) (Fin 0))
                     \<lparr>curr_sample := 9\<rparr>],
       write_output = False, outfile = [], player_samplerate = 4\<rparr>))
   = [(new_osc 1 example_tab 4 example_bp 4 (Fin 1) (Fin 1) (Fin 2) (Fin 0))\<lparr>curr_sample := 9\<rparr>]"
proof -
  have "osc_id (new_osc 1 example_tab 4 example_bp 4 (Fin 1) (Fin 1) (Fin 2) (Fin 0)) = 1"
    by (simp add: new_osc_def)
  then show ?thesis
    by (simp add: synch_update_def synch_loop.simps example_expired)
qed

text \<open>\<^verbatim>\<open>add_osc\<close> and the callback touch the list between a lock and an unlock.\<close>

lemma add_osc_guarded:
  "guarded False (fst (add_osc player ident table tlen bp fr ampl length_s waittime))"
  by (simp add: add_osc_def Let_def)

lemma callback_guarded: "guarded False (fst (audio_player_callback player n))"
  by (simp add: audio_player_callback_def split_beta Let_def)

text \<open>Claim C3: every access to the oscillator list, the reap by \<^verbatim>\<open>synch_update\<close> included,
  is made while \<^verbatim>\<open>osc_list_lock\<close> is held, and the reap acquires the lock before it scans.
  The source does not: \<^verbatim>\<open>synch_update\<close> (and \<^verbatim>\<open>oscil_list_remove\<close>, which it calls) contains
  no call of \<^verbatim>\<open>pthread_mutex_lock\<close>, so on every player its trace is a list access with
  the mutex not held. The comment on \<^verbatim>\<open>osc_list_lock\<close> in the header says that the mutex
  should be locked whenever the list is being modified.\<close>

theorem synch_update_without_lock:
  "fst (synch_update player) = [ListAccess] \<and> \<not> guarded False (fst (synch_update player))"
  by (simp add: synch_update_def)

end
